theory Spec2Isabelle
  imports Main "HOL-Library.AList"
begin

section \<open>Library functions of the platform used by \<^verbatim>\<open>pdf_processor.js\<close>\<close>

text \<open>
  Strings are lists of characters.  File contents are the decoded text that
  \<^verbatim>\<open>fs.readFileSync(p, 'utf8')\<close> returns.  Paths are POSIX paths; the batch resolves
  its two directories with \<^verbatim>\<open>path.resolve\<close>, and the model takes them already
  resolved (absolute, normalised, no trailing slash), where \<^verbatim>\<open>path.resolve\<close> is the
  identity.
\<close>

subsection \<open>\<^verbatim>\<open>String.prototype.toLowerCase\<close>\<close>

text \<open>
  Only the comparisons with \<^verbatim>\<open>'.pdf'\<close> and \<^verbatim>\<open>'.md'\<close> use it; the letters of these
  two strings are the lower case of their ASCII capitals only, so the ASCII
  mapping decides both comparisons as the full Unicode mapping does.
\<close>

definition toLowerChar :: "char \<Rightarrow> char" where
  "toLowerChar c =
     (case map_of (zip ''ABCDEFGHIJKLMNOPQRSTUVWXYZ'' ''abcdefghijklmnopqrstuvwxyz'') c of
        Some l \<Rightarrow> l
      | None \<Rightarrow> c)"

definition toLowerCase :: "string \<Rightarrow> string" where
  "toLowerCase s = map toLowerChar s"

subsection \<open>\<^verbatim>\<open>path.extname\<close>, \<^verbatim>\<open>path.basename\<close>, \<^verbatim>\<open>path.join\<close>\<close>

text \<open>The last path component: what follows the last slash.\<close>

definition last_segment :: "string \<Rightarrow> string" where
  "last_segment p = rev (takeWhile (\<lambda>c. c \<noteq> CHR ''/'') (rev p))"

definition ends_with :: "string \<Rightarrow> string \<Rightarrow> bool" where
  "ends_with s ext = (length ext \<le> length s \<and> drop (length s - length ext) s = ext)"

text \<open>
  \<^verbatim>\<open>path.basename(p, ext)\<close> for a path that does not end with a slash and a
  non-empty \<open>ext\<close>: the last component, without \<open>ext\<close> when the component ends
  with it (compared character by character, so case matters) and is longer
  than it; the empty string when the whole path is \<open>ext\<close>.
\<close>

definition basename :: "string \<Rightarrow> string \<Rightarrow> string" where
  "basename p ext =
     (if ext = p then []
      else (let c = last_segment p in
            if ends_with c ext \<and> c \<noteq> ext then take (length c - length ext) c else c))"

text \<open>
  \<^verbatim>\<open>path.extname(p)\<close> for a path that does not end with a slash: from the last
  dot of the last component to its end; empty when the component has no dot,
  when its only dot is its first character, and for the component \<^verbatim>\<open>..\<close>.
\<close>

definition extname :: "string \<Rightarrow> string" where
  "extname p =
     (let c = last_segment p;
          e = rev (takeWhile (\<lambda>x. x \<noteq> CHR ''.'') (rev c))
      in if CHR ''.'' \<in> set c \<and> length c \<noteq> Suc (length e) \<and> c \<noteq> ''..''
         then CHR ''.'' # e
         else [])"

text \<open>
  \<^verbatim>\<open>path.join(dir, name)\<close> for a resolved directory and a directory entry:
  normalisation changes nothing but the doubled slash under the root.
\<close>

definition path_join :: "string \<Rightarrow> string \<Rightarrow> string" where
  "path_join dir name = (if dir = ''/'' then dir @ name else dir @ ''/'' @ name)"

text \<open>A directory entry as \<^verbatim>\<open>fs.readdirSync\<close> returns it: not empty, no slash.\<close>

definition valid_entry :: "string \<Rightarrow> bool" where
  "valid_entry name = (name \<noteq> [] \<and> CHR ''/'' \<notin> set name)"

subsection \<open>The regular expression \<^verbatim>\<open>/(_page[^)]+\.jpeg)/g\<close>\<close>

text \<open>
  A match at the start of \<open>s\<close>: the literal \<^verbatim>\<open>_page\<close>, then \<^verbatim>\<open>[^)]+\<close>, greedy: the
  matcher first takes every character up to the next closing parenthesis (or
  the end of the text) and gives characters back one at a time, down to one,
  until \<^verbatim>\<open>.jpeg\<close> follows.  \<open>give_back k rest\<close> tries the lengths \<open>k\<close>, \<open>k - 1\<close>,
  ..., \<open>1\<close> in that order.
\<close>

fun give_back :: "nat \<Rightarrow> string \<Rightarrow> nat option" where
  "give_back 0 rest = None"
| "give_back (Suc k) rest =
     (if take 5 (drop (Suc k) rest) = ''.jpeg'' then Some (Suc k) else give_back k rest)"

definition match_at :: "string \<Rightarrow> nat option" where
  "match_at s =
     (if take 5 s = ''_page''
      then (let rest = drop 5 s;
                longest = length (takeWhile (\<lambda>c. c \<noteq> CHR '')'') rest)
            in case give_back longest rest of
                 None \<Rightarrow> None
               | Some k \<Rightarrow> Some (5 + k + 5))
      else None)"

subsection \<open>The replacement pattern of \<^verbatim>\<open>String.prototype.replace\<close>\<close>

text \<open>
  The second argument of \<^verbatim>\<open>replace\<close> is a pattern: \<^verbatim>\<open>$$\<close> stands for a dollar
  sign, \<^verbatim>\<open>$&\<close> for the match, \<^verbatim>\<open>$1\<close> and \<^verbatim>\<open>$01\<close> for the first group, and a dollar
  sign followed by a backquote or a quote for the text before or after the
  match.  The expression has one group, so a number above 1 is read as its
  first digit, and \<^verbatim>\<open>$0\<close>, \<^verbatim>\<open>$00\<close> and \<^verbatim>\<open>$2\<close> to \<^verbatim>\<open>$9\<close> stay as they are.  The group
  of this expression is the whole match.
\<close>

fun substitute :: "string \<Rightarrow> string \<Rightarrow> string \<Rightarrow> string \<Rightarrow> string" where
  "substitute pre matched post [] = []"
| "substitute pre matched post [c] = [c]"
| "substitute pre matched post (c # d # r) =
     (if c \<noteq> CHR ''$'' then c # substitute pre matched post (d # r)
      else if d = CHR ''$'' then CHR ''$'' # substitute pre matched post r
      else if d = CHR ''&'' then matched @ substitute pre matched post r
      else if d = CHR 0x60 then pre @ substitute pre matched post r
      else if d = CHR 0x27 then post @ substitute pre matched post r
      else if d = CHR ''1'' then matched @ substitute pre matched post r
      else if d = CHR ''0'' then
        (case r of
           [] \<Rightarrow> [c, d]
         | e # r' \<Rightarrow>
             if e = CHR ''1'' then matched @ substitute pre matched post r'
             else if e = CHR ''0'' then c # d # e # substitute pre matched post r'
             else c # d # substitute pre matched post r)
      else c # substitute pre matched post (d # r))"

subsection \<open>\<^verbatim>\<open>content.replace(regex, pattern)\<close> with the global flag\<close>

text \<open>
  The text is scanned from the left; at a match the expanded pattern is
  written and the scan goes on after the match, elsewhere one character is
  copied.  \<open>seen\<close> is the text already scanned.
\<close>

function replace_from :: "string \<Rightarrow> string \<Rightarrow> string \<Rightarrow> string" where
  "replace_from pattern seen [] = []"
| "replace_from pattern seen (c # cs) =
     (case match_at (c # cs) of
        Some n \<Rightarrow>
          substitute seen (take n (c # cs)) (drop n (c # cs)) pattern
            @ replace_from pattern (seen @ take n (c # cs)) (drop n (c # cs))
      | None \<Rightarrow> c # replace_from pattern (seen @ [c]) cs)"
  by pat_completeness auto
termination
  by (relation "measure (\<lambda>(pattern, seen, s). length s)")
     (auto simp: match_at_def Let_def split: if_splits option.splits)

definition replace_g :: "string \<Rightarrow> string \<Rightarrow> string" where
  "replace_g pattern content = replace_from pattern [] content"

section \<open>The world of the program\<close>

text \<open>
  A file of an output folder, with what \<^verbatim>\<open>readFileSync\<close> and \<^verbatim>\<open>writeFileSync\<close>
  need to know of it.  An entry that is a directory is a file that cannot be
  read.
\<close>

record text_file =
  content :: string
  readable :: bool
  writable :: bool

text \<open>
  What stands at \<^verbatim>\<open>path.join(outputDir, key)\<close>: its entries in listing order (the
  names of one directory are distinct), whether \<^verbatim>\<open>readdirSync\<close> can list it and
  whether \<^verbatim>\<open>rmdirSync\<close> can remove it.  A regular file at that place is an
  entry that can be neither listed nor removed as a directory.
\<close>

record folder =
  entries :: "(string \<times> text_file) list"
  listable :: bool
  removable :: bool

type_synonym tree = "string \<rightharpoonup> folder"

datatype exn = Exn string

text \<open>What the input directory is when the batch looks at it.\<close>

datatype dir_state = Absent | Unlistable exn | Entries "string list"

text \<open>
  How a child process ends for \<^verbatim>\<open>spawnCommand\<close>: the \<^verbatim>\<open>close\<close> event with an exit
  code, the \<^verbatim>\<open>close\<close> event with the code \<^verbatim>\<open>null\<close> (the child was killed by a
  signal), or the \<^verbatim>\<open>error\<close> event (the process could not be launched).
\<close>

datatype child_event = Exit int | Killed | LaunchError exn

text \<open>
  The operating system's side of \<^verbatim>\<open>spawn(command, args, {shell: false})\<close>: the
  program that runs is outside the repository, so it is a parameter.  From the
  command, its arguments, the state of everything outside the program and the
  output tree it yields the event that settles the promise, and the new
  outside state and output tree.  The input directory is read once, before the
  first child runs, and the output root exists whenever a child runs.
\<close>

type_synonym 'x os = "string \<Rightarrow> string list \<Rightarrow> 'x \<times> tree \<Rightarrow> child_event \<times> 'x \<times> tree"

record 'x world =
  input_dir :: dir_state
  root_exists :: bool
  mkdir_ok :: bool
  tree :: tree
  outside :: 'x
  spawned :: "(string \<times> string list) list"

section \<open>\<^verbatim>\<open>pdf_processor.js\<close>\<close>

subsection \<open>\<^verbatim>\<open>spawnCommand\<close>\<close>

text \<open>
  The promise settles at the first event: \<^verbatim>\<open>close\<close> resolves it (\<open>Inr\<close>) with
  \<^verbatim>\<open>code === 0\<close>, \<^verbatim>\<open>error\<close> rejects it (\<open>Inl\<close>).  Every call is recorded in
  \<open>spawned\<close>.
\<close>

definition settle :: "child_event \<Rightarrow> exn + bool" where
  "settle ev =
     (case ev of
        Exit code \<Rightarrow> if code = 0 then Inr True else Inr False
      | Killed \<Rightarrow> Inr False
      | LaunchError error \<Rightarrow> Inl error)"

definition spawnCommand ::
  "'x os \<Rightarrow> string \<Rightarrow> string list \<Rightarrow> 'x world \<Rightarrow> (exn + bool) \<times> 'x world" where
  "spawnCommand os command args w =
     (case os command args (outside w, tree w) of
        (ev, x', t') \<Rightarrow>
          (settle ev,
           w\<lparr>tree := t', outside := x', spawned := spawned w @ [(command, args)]\<rparr>))"

subsection \<open>\<^verbatim>\<open>replaceImagePaths\<close>\<close>

definition readFileSync :: "text_file \<Rightarrow> exn + string" where
  "readFileSync f = (if readable f then Inr (content f) else Inl (Exn ''read''))"

definition writeFileSync :: "text_file \<Rightarrow> string \<Rightarrow> exn + text_file" where
  "writeFileSync f c = (if writable f then Inr (f\<lparr>content := c\<rparr>) else Inl (Exn ''write''))"

definition url_pattern :: "string \<Rightarrow> string" where
  "url_pattern folderName = ''http://localhost:3000/'' @ folderName @ ''/$1''"

definition replaceImagePaths :: "string \<Rightarrow> text_file \<Rightarrow> bool \<times> text_file" where
  "replaceImagePaths folderName f =
     (case readFileSync f of
        Inl error \<Rightarrow> (False, f)
      | Inr c \<Rightarrow>
          (case writeFileSync f (replace_g (url_pattern folderName) c) of
             Inl error \<Rightarrow> (False, f)
           | Inr f' \<Rightarrow> (True, f')))"

subsection \<open>\<^verbatim>\<open>processMarkdownFiles\<close>\<close>

text \<open>
  The world has one output root, the directory that \<open>outputDir\<close> names, and
  the folder of a key is the entry of that name under it.

  \<^verbatim>\<open>fs.existsSync(path.join(outputDir, key))\<close>: for the three keys that are no
  name of an entry (the empty key and the two dot segments) the joined path
  is the output root or its parent, which exist when the root does.  A
  document with such a key (the files \<^verbatim>\<open>..pdf\<close> and \<^verbatim>\<open>...pdf\<close>) is therefore skipped
  by the batch and by \<^verbatim>\<open>processPdf\<close>, and no other function is called with it.
\<close>

definition folder_exists :: "'x world \<Rightarrow> string \<Rightarrow> bool" where
  "folder_exists w key =
     (root_exists w \<and> (key = [] \<or> key = ''.'' \<or> key = ''..'' \<or> tree w key \<noteq> None))"

definition readdirSync :: "'x world \<Rightarrow> string \<Rightarrow> exn + string list" where
  "readdirSync w key =
     (case tree w key of
        None \<Rightarrow> Inl (Exn ''readdir'')
      | Some fd \<Rightarrow> if listable fd then Inr (map fst (entries fd)) else Inl (Exn ''readdir''))"

definition is_md :: "string \<Rightarrow> bool" where
  "is_md name = (toLowerCase (extname name) = ''.md'')"

text \<open>One turn of the loop over \<open>mdFiles\<close>: the file of that name is rewritten in place.\<close>

definition rewrite_file :: "string \<Rightarrow> string \<Rightarrow> 'x world \<Rightarrow> 'x world" where
  "rewrite_file key mdFile w =
     (case tree w key of
        None \<Rightarrow> w
      | Some fd \<Rightarrow>
          w\<lparr>tree := (tree w)(key \<mapsto>
               fd\<lparr>entries := AList.map_entry mdFile (\<lambda>f. snd (replaceImagePaths key f)) (entries fd)\<rparr>)\<rparr>)"

fun md_loop :: "string \<Rightarrow> string list \<Rightarrow> 'x world \<Rightarrow> 'x world" where
  "md_loop key [] w = w"
| "md_loop key (mdFile # mdFiles) w = md_loop key mdFiles (rewrite_file key mdFile w)"

definition processMarkdownFiles :: "string \<Rightarrow> 'x world \<Rightarrow> bool \<times> 'x world" where
  "processMarkdownFiles key w =
     (if \<not> folder_exists w key then (False, w)
      else (case readdirSync w key of
              Inl error \<Rightarrow> (False, w)
            | Inr files \<Rightarrow>
                (let mdFiles = filter is_md files in
                 if mdFiles = [] then (True, w) else (True, md_loop key mdFiles w))))"

subsection \<open>\<^verbatim>\<open>processPdf\<close>\<close>

definition rmdirSync :: "'x world \<Rightarrow> string \<Rightarrow> exn + 'x world" where
  "rmdirSync w key =
     (case tree w key of
        None \<Rightarrow> Inl (Exn ''rmdir'')
      | Some fd \<Rightarrow>
          if removable fd then Inr (w\<lparr>tree := (tree w)(key := None)\<rparr>) else Inl (Exn ''rmdir''))"

text \<open>The cleanup of both failure branches: delete the folder if it exists, log a failure.\<close>

definition cleanup :: "string \<Rightarrow> 'x world \<Rightarrow> 'x world" where
  "cleanup key w =
     (if folder_exists w key
      then (case rmdirSync w key of Inl deleteError \<Rightarrow> w | Inr w' \<Rightarrow> w')
      else w)"

text \<open>
  The result is the value the promise of the \<^verbatim>\<open>async\<close> function settles with:
  \<open>Inr b\<close> when it resolves with \<open>b\<close>, \<open>Inl e\<close> when it rejects.  The rejection
  of \<^verbatim>\<open>spawnCommand\<close> is thrown by \<^verbatim>\<open>await\<close> inside the \<^verbatim>\<open>try\<close> block and goes to
  its handler; \<^verbatim>\<open>processMarkdownFiles\<close> has a handler of its own and its result
  is not used.
\<close>

definition processPdf ::
  "'x os \<Rightarrow> string \<Rightarrow> string \<Rightarrow> 'x world \<Rightarrow> (exn + bool) \<times> 'x world" where
  "processPdf os pdfPath outputDir w =
     (let pdfFileName = basename pdfPath ''.pdf'' in
      if folder_exists w pdfFileName then (Inr True, w)
      else (case spawnCommand os ''marker_single'' [pdfPath, ''--output_dir'', outputDir] w of
              (Inr success, w1) \<Rightarrow>
                if \<not> success then (Inr False, cleanup pdfFileName w1)
                else (Inr True, snd (processMarkdownFiles pdfFileName w1))
            | (Inl error, w1) \<Rightarrow> (Inr False, cleanup pdfFileName w1)))"

subsection \<open>\<^verbatim>\<open>processAllPdfs\<close>\<close>

definition is_pdf :: "string \<Rightarrow> bool" where
  "is_pdf name = (toLowerCase (extname name) = ''.pdf'')"

text \<open>The three counters of the loop.\<close>

record counts =
  successCount :: nat
  skipCount :: nat
  failCount :: nat

text \<open>
  The loop over \<open>pdfFiles\<close>.  A rejection of \<^verbatim>\<open>processPdf\<close> would leave the loop
  for the handler of \<^verbatim>\<open>processAllPdfs\<close>: it is the result \<open>Inl\<close>.
\<close>

fun batch_loop ::
  "'x os \<Rightarrow> string \<Rightarrow> string \<Rightarrow> string list \<Rightarrow> counts \<Rightarrow> 'x world \<Rightarrow> (exn + counts) \<times> 'x world"
  where
  "batch_loop os inputDir outputDir [] c w = (Inr c, w)"
| "batch_loop os inputDir outputDir (pdfFile # pdfFiles) c w =
     (let pdfPath = path_join inputDir pdfFile;
          pdfFileName = basename pdfFile ''.pdf''
      in if folder_exists w pdfFileName
         then batch_loop os inputDir outputDir pdfFiles (c\<lparr>skipCount := skipCount c + 1\<rparr>) w
         else (case processPdf os pdfPath outputDir w of
                 (Inl error, w') \<Rightarrow> (Inl error, w')
               | (Inr result, w') \<Rightarrow>
                   if result
                   then batch_loop os inputDir outputDir pdfFiles
                          (c\<lparr>successCount := successCount c + 1\<rparr>) w'
                   else batch_loop os inputDir outputDir pdfFiles
                          (c\<lparr>failCount := failCount c + 1\<rparr>) w'))"

text \<open>How a call of \<^verbatim>\<open>processAllPdfs\<close> ends.\<close>

datatype run_end =
    InputDirMissing
  | NoPdfFiles
  | Summary nat nat nat
  | Caught exn

definition ensure_output_dir :: "'x world \<Rightarrow> exn + 'x world" where
  "ensure_output_dir w =
     (if \<not> root_exists w
      then (if mkdir_ok w then Inr (w\<lparr>root_exists := True, tree := Map.empty\<rparr>)
            else Inl (Exn ''mkdir''))
      else Inr w)"

definition processAllPdfs ::
  "'x os \<Rightarrow> string \<Rightarrow> string \<Rightarrow> 'x world \<Rightarrow> run_end \<times> 'x world" where
  "processAllPdfs os inputDir outputDir w =
     (case input_dir w of
        Absent \<Rightarrow> (InputDirMissing, w)
      | Unlistable error \<Rightarrow>
          (case ensure_output_dir w of
             Inl error' \<Rightarrow> (Caught error', w)
           | Inr w1 \<Rightarrow> (Caught error, w1))
      | Entries files \<Rightarrow>
          (case ensure_output_dir w of
             Inl error \<Rightarrow> (Caught error, w)
           | Inr w1 \<Rightarrow>
               (let pdfFiles = filter is_pdf files in
                if pdfFiles = [] then (NoPdfFiles, w1)
                else (case batch_loop os inputDir outputDir pdfFiles
                             \<lparr>successCount = 0, skipCount = 0, failCount = 0\<rparr> w1 of
                        (Inl error, w2) \<Rightarrow> (Caught error, w2)
                      | (Inr c, w2) \<Rightarrow>
                          (Summary (successCount c) (skipCount c) (failCount c), w2)))))"

subsection \<open>The script\<close>

text \<open>
  \<open>args\<close> is \<^verbatim>\<open>process.argv.slice(2)\<close>.  The result is the exit status of the
  process, how the batch ended when it ran, and the world it leaves.  A script
  that comes to its end without \<^verbatim>\<open>process.exit\<close> and without an uncaught
  rejection exits with status 0.
\<close>

definition main :: "'x os \<Rightarrow> string list \<Rightarrow> 'x world \<Rightarrow> nat \<times> run_end option \<times> 'x world" where
  "main os args w =
     (if length args < 2 then (1, None, w)
      else (case processAllPdfs os (args ! 0) (args ! 1) w of
              (r, w') \<Rightarrow> (0, Some r, w')))"

section \<open>A page reference, as the specification defines it\<close>

text \<open>
  A run of characters that begins with \<^verbatim>\<open>_page\<close> and ends with \<^verbatim>\<open>.jpeg\<close>, with at
  least one character between the two and no closing parenthesis in it.
\<close>

definition is_page_ref :: "string \<Rightarrow> bool" where
  "is_page_ref m =
     (take 5 m = ''_page'' \<and> 11 \<le> length m \<and> drop (length m - 5) m = ''.jpeg''
      \<and> CHR '')'' \<notin> set m)"

section \<open>The outcome of a document, as the specification defines it\<close>



section \<open>Fixtures for the examples\<close>

text \<open>
  A converter stub: for each document path, the event its run ends with and
  the folders it leaves under the output root.  The outside world is trivial.
  In the examples the input directory is \<^verbatim>\<open>/in\<close> and the output root \<^verbatim>\<open>/out\<close>; the
  stub of \<open>demo_behaviour\<close> fails on \<^verbatim>\<open>b.pdf\<close> after writing a folder, cannot be
  launched for \<^verbatim>\<open>e.pdf\<close>, fails on \<^verbatim>\<open>f.pdf\<close> leaving a folder that cannot be
  removed, and converts every other document.
\<close>

definition stub :: "(string \<Rightarrow> child_event \<times> (string \<times> folder) list) \<Rightarrow> unit os" where
  "stub behaviour command args s =
     (case s of (x, t) \<Rightarrow>
        (case args of
           [] \<Rightarrow> (LaunchError (Exn ''usage''), x, t)
         | pdfPath # _ \<Rightarrow>
             (fst (behaviour pdfPath), x,
              foldr (\<lambda>(key, fd) t'. t'(key \<mapsto> fd)) (snd (behaviour pdfPath)) t)))"

definition sample_folder :: "string \<Rightarrow> folder" where
  "sample_folder c =
     \<lparr>entries = [(''doc.md'', \<lparr>content = c, readable = True, writable = True\<rparr>)],
      listable = True, removable = True\<rparr>"

definition sample_world :: "dir_state \<Rightarrow> (string \<times> folder) list \<Rightarrow> unit world" where
  "sample_world d folders =
     \<lparr>input_dir = d, root_exists = True, mkdir_ok = True, tree = map_of folders,
      outside = (), spawned = []\<rparr>"

definition empty_folder :: folder where
  "empty_folder = \<lparr>entries = [], listable = True, removable = True\<rparr>"

definition locked_folder :: folder where
  "locked_folder = \<lparr>entries = [], listable = True, removable = False\<rparr>"

definition demo_behaviour :: "string \<Rightarrow> child_event \<times> (string \<times> folder) list" where
  "demo_behaviour p =
     (if p = ''/in/b.pdf'' then (Exit 2, [(''b'', empty_folder)])
      else if p = ''/in/e.pdf'' then (LaunchError (Exn ''ENOENT''), [])
      else if p = ''/in/f.pdf'' then (Exit 1, [(''f'', locked_folder)])
      else (Exit 0, [(basename p ''.pdf'', empty_folder)]))"

definition demo_world :: "unit world" where
  "demo_world =
     sample_world (Entries [''a.pdf'', ''b.pdf'', ''c.pdf'', ''n.txt''])
       [(''a'', empty_folder)]"


text \<open>
  A converter that keeps its contract on \<^verbatim>\<open>Report.PDF\<close>: it leaves the folder
  \<^verbatim>\<open>Report\<close>, named after the base name of the document, with one Markdown file.
\<close>

definition upper_world :: "unit world" where
  "upper_world = sample_world (Entries [''Report.PDF'']) []"

definition upper_behaviour :: "string \<Rightarrow> child_event \<times> (string \<times> folder) list" where
  "upper_behaviour p = (Exit 0, [(''Report'', sample_folder ''![alt](_page_3.jpeg)'')])"

section \<open>Paths\<close>

lemma takeWhile_no_slash:
  "CHR ''/'' \<notin> set f \<Longrightarrow> takeWhile (\<lambda>c. c \<noteq> CHR ''/'') (rev f @ CHR ''/'' # r) = rev f"
  by (induction f rule: rev_induct) auto

lemma last_segment_plain: "CHR ''/'' \<notin> set f \<Longrightarrow> last_segment f = f"
proof -
  assume a: "CHR ''/'' \<notin> set f"
  have "takeWhile (\<lambda>c. c \<noteq> CHR ''/'') (rev f) = rev f"
    by (rule takeWhile_eq_all_conv [THEN iffD2]) (use a in auto)
  then show ?thesis
    unfolding last_segment_def by (simp only: rev_rev_ident)
qed

lemma last_segment_append:
  "CHR ''/'' \<notin> set f \<Longrightarrow> last_segment (d @ CHR ''/'' # f) = f"
  by (simp add: last_segment_def takeWhile_no_slash)

lemma last_segment_path_join:
  "CHR ''/'' \<notin> set f \<Longrightarrow> last_segment (path_join d f) = f"
  using last_segment_append [of f d] last_segment_append [of f "[]"]
  by (simp add: path_join_def)

lemma is_pdf_not_bare_extension: "is_pdf f \<Longrightarrow> f \<noteq> ''.pdf''"
  by (auto simp: is_pdf_def extname_def last_segment_def toLowerCase_def)

lemma path_join_not_extension: "path_join d f \<noteq> ''.pdf''"
proof
  assume "path_join d f = ''.pdf''"
  then have "CHR ''/'' \<in> set ''.pdf''"
    by (metis (no_types) path_join_def append_Cons in_set_conv_decomp list.set_intros(1) append_assoc  append_Nil)
  then show False by simp
qed

lemma basename_path_join:
  "valid_entry f \<Longrightarrow> is_pdf f \<Longrightarrow> basename (path_join d f) ''.pdf'' = basename f ''.pdf''"
  using is_pdf_not_bare_extension [of f] path_join_not_extension [of d f]
  by (simp add: basename_def valid_entry_def last_segment_path_join last_segment_plain
      del: One_nat_def)

section \<open>One document\<close>

lemma processPdf_resolves: "\<exists>b. fst (processPdf os p out w) = Inr b"
  by (auto simp: processPdf_def Let_def split: prod.splits sum.splits)

lemma processPdf_skip:
  "folder_exists w (basename p ''.pdf'') \<Longrightarrow> processPdf os p out w = (Inr True, w)"
  by (simp add: processPdf_def)

lemma spawnCommand_result:
  "fst (spawnCommand os command args w) = settle (fst (os command args (outside w, tree w)))"
  by (simp add: spawnCommand_def split: prod.splits)

lemma spawnCommand_world:
  "os command args (outside w, tree w) = (ev, x', t') \<Longrightarrow>
   spawnCommand os command args w =
     (settle ev, w\<lparr>tree := t', outside := x', spawned := spawned w @ [(command, args)]\<rparr>)"
  by (simp add: spawnCommand_def)






lemma processPdf_failed:
  assumes "\<not> folder_exists w (basename p ''.pdf'')"
    and "os ''marker_single'' [p, ''--output_dir'', out] (outside w, tree w) = (ev, x', t')"
    and "ev \<noteq> Exit 0"
  shows "processPdf os p out w =
     (Inr False,
      cleanup (basename p ''.pdf'')
        (w\<lparr>tree := t', outside := x',
           spawned := spawned w @ [(''marker_single'', [p, ''--output_dir'', out])]\<rparr>))"
  using assms
  by (cases ev) (simp_all add: processPdf_def spawnCommand_world settle_def)

lemma processPdf_succeeded:
  assumes "\<not> folder_exists w (basename p ''.pdf'')"
    and "os ''marker_single'' [p, ''--output_dir'', out] (outside w, tree w) = (Exit 0, x', t')"
  shows "processPdf os p out w =
     (Inr True,
      snd (processMarkdownFiles (basename p ''.pdf'')
        (w\<lparr>tree := t', outside := x',
           spawned := spawned w @ [(''marker_single'', [p, ''--output_dir'', out])]\<rparr>)))"
  using assms
  by (simp add: processPdf_def spawnCommand_world settle_def)


lemma processPdf_result:
  "fst (processPdf os p out w) =
     Inr (folder_exists w (basename p ''.pdf'')
          \<or> fst (os ''marker_single'' [p, ''--output_dir'', out] (outside w, tree w)) = Exit 0)"
proof (cases "folder_exists w (basename p ''.pdf'')")
  case True
  then show ?thesis by (simp add: processPdf_skip)
next
  case False
  obtain ev x' t' where os: "os ''marker_single'' [p, ''--output_dir'', out] (outside w, tree w) = (ev, x', t')"
    by (cases "os ''marker_single'' [p, ''--output_dir'', out] (outside w, tree w)") auto
  show ?thesis
  proof (cases "ev = Exit 0")
    case True
    with False os show ?thesis by (simp add: processPdf_succeeded)
  next
    case ne: False
    with False os show ?thesis by (simp add: processPdf_failed)
  qed
qed

lemma settle_true: "settle ev = Inr True \<longleftrightarrow> ev = Exit 0"
  by (cases ev) (simp_all add: settle_def)


section \<open>The loop of the batch\<close>

lemma batch_loop_total:
  "\<exists>c'. fst (batch_loop os i out fs c w) = Inr c'
     \<and> successCount c' + skipCount c' + failCount c'
         = successCount c + skipCount c + failCount c + length fs"
proof (induction fs arbitrary: c w)
  case Nil
  show ?case by simp
next
  case (Cons f fs)
  show ?case
  proof (cases "folder_exists w (basename f ''.pdf'')")
    case True
    with Cons [of "c\<lparr>skipCount := skipCount c + 1\<rparr>" w] show ?thesis by simp
  next
    case False
    obtain b where b: "fst (processPdf os (path_join i f) out w) = Inr b"
      using processPdf_resolves by blast
    then obtain w' where w': "processPdf os (path_join i f) out w = (Inr b, w')"
      by (cases "processPdf os (path_join i f) out w") auto
    show ?thesis
    proof (cases b)
      case True
      with False w' Cons [of "c\<lparr>successCount := successCount c + 1\<rparr>" w'] show ?thesis by simp
    next
      case nb: False
      with False w' Cons [of "c\<lparr>failCount := failCount c + 1\<rparr>" w'] show ?thesis by simp
    qed
  qed
qed







lemma processAllPdfs_not_caught:
  assumes "input_dir w = Entries files" and "root_exists w \<or> mkdir_ok w"
  shows "fst (processAllPdfs os i out w) \<noteq> Caught e"
proof -
  have "\<exists>w1. ensure_output_dir w = Inr w1"
    using assms(2) by (cases "root_exists w") (auto simp: ensure_output_dir_def)
  then obtain w1 where w1: "ensure_output_dir w = Inr w1" ..
  let ?fs = "filter is_pdf files"
  let ?c0 = "\<lparr>successCount = 0, skipCount = 0, failCount = 0\<rparr>"
  obtain c' where "fst (batch_loop os i out ?fs ?c0 w1) = Inr c'"
    using batch_loop_total [of os i out ?fs ?c0 w1] by blast
  then show ?thesis
    using assms(1) w1
    by (cases "batch_loop os i out ?fs ?c0 w1") (simp add: processAllPdfs_def Let_def)
qed

section \<open>The matcher and the replacement\<close>

lemma prefix_all_takeWhile:
  "j \<le> length xs \<Longrightarrow> (\<forall>x\<in>set (take j xs). P x) = (j \<le> length (takeWhile P xs))"
proof (induction xs arbitrary: j)
  case Nil
  then show ?case by simp
next
  case (Cons x xs)
  then show ?case by (cases j) auto
qed

lemma give_back_Some:
  "give_back k rest = Some j \<Longrightarrow>
     1 \<le> j \<and> j \<le> k \<and> take 5 (drop j rest) = ''.jpeg''
     \<and> (\<forall>i. j < i \<and> i \<le> k \<longrightarrow> take 5 (drop i rest) \<noteq> ''.jpeg'')"
proof (induction k)
  case 0
  then show ?case by simp
next
  case (Suc k)
  show ?case
  proof (cases "take 5 (drop (Suc k) rest) = ''.jpeg''")
    case True
    with Suc.prems show ?thesis by auto
  next
    case False
    with Suc.prems have "give_back k rest = Some j" by simp
    from Suc.IH [OF this] False show ?thesis
      by (auto simp: le_Suc_eq)
  qed
qed

lemma give_back_None:
  "give_back k rest = None \<Longrightarrow> 1 \<le> i \<Longrightarrow> i \<le> k \<Longrightarrow> take 5 (drop i rest) \<noteq> ''.jpeg''"
proof (induction k)
  case 0
  then show ?case by simp
next
  case (Suc k)
  then show ?case
    by (cases "take 5 (drop (Suc k) rest) = ''.jpeg''") (auto simp: le_Suc_eq)
qed

lemma no_paren_parts:
  "CHR '')'' \<notin> set a \<Longrightarrow> CHR '')'' \<notin> set c \<Longrightarrow>
   (CHR '')'' \<notin> set (a @ b @ c)) = (\<forall>x\<in>set b. x \<noteq> CHR '')'')"
  by auto

lemma page_ref_parts:
  assumes "j + 10 \<le> length s"
  shows "is_page_ref (take (j + 10) s) \<longleftrightarrow>
     take 5 s = ''_page'' \<and> 1 \<le> j \<and> take 5 (drop j (drop 5 s)) = ''.jpeg''
     \<and> j \<le> length (takeWhile (\<lambda>c. c \<noteq> CHR '')'') (drop 5 s))"
proof -
  let ?rest = "drop 5 s"
  let ?A = "take 5 s" and ?B = "take j ?rest" and ?C = "take 5 (drop j ?rest)"
  have "take (5 + (j + 5)) s = ?A @ take (j + 5) ?rest"
    by (rule take_add)
  moreover have "take (j + 5) ?rest = ?B @ ?C"
    by (rule take_add)
  ultimately have split: "take (j + 10) s = ?A @ ?B @ ?C"
    by (simp add: add.commute)
  have lens: "length ?A = 5" "length ?B = j" "length ?C = 5"
    using assms by simp_all
  have len: "length (?A @ ?B @ ?C) = j + 10"
    using lens by simp
  have head: "take 5 (?A @ ?B @ ?C) = ?A"
    using lens(1) by simp
  have tail: "drop (j + 10 - 5) (?A @ ?B @ ?C) = ?C"
    using lens by simp
  have "j \<le> length ?rest"
    using assms by simp
  then have mid: "(\<forall>x\<in>set ?B. x \<noteq> CHR '')'')
      = (j \<le> length (takeWhile (\<lambda>c. c \<noteq> CHR '')'') ?rest))"
    by (rule prefix_all_takeWhile)
  have pa: "CHR '')'' \<notin> set ?A" if "?A = ''_page''"
    unfolding that by simp
  have pc: "CHR '')'' \<notin> set ?C" if "?C = ''.jpeg''"
    unfolding that by simp
  have unfold: "is_page_ref (?A @ ?B @ ?C) \<longleftrightarrow>
      ?A = ''_page'' \<and> 11 \<le> j + 10 \<and> ?C = ''.jpeg'' \<and> CHR '')'' \<notin> set (?A @ ?B @ ?C)"
    unfolding is_page_ref_def head len tail ..
  have paren: "CHR '')'' \<notin> set (?A @ ?B @ ?C) \<longleftrightarrow> (\<forall>x\<in>set ?B. x \<noteq> CHR '')'')"
    if "?A = ''_page''" "?C = ''.jpeg''"
    using pa [OF that(1)] pc [OF that(2)] no_paren_parts by blast
  have "11 \<le> j + 10 \<longleftrightarrow> 1 \<le> j"
    by arith
  with unfold paren show ?thesis
    unfolding split mid by blast
qed

lemma page_ref_length: "is_page_ref m \<Longrightarrow> 11 \<le> length m"
  by (simp add: is_page_ref_def)

lemma match_at_Some:
  assumes "match_at s = Some n"
  shows "n \<le> length s \<and> is_page_ref (take n s)
     \<and> (\<forall>m. n < m \<and> m \<le> length s \<longrightarrow> \<not> is_page_ref (take m s))"
proof -
  let ?rest = "drop 5 s"
  let ?L = "length (takeWhile (\<lambda>c. c \<noteq> CHR '')'') ?rest)"
  from assms have page: "take 5 s = ''_page''"
    by (simp add: match_at_def split: if_splits)
  with assms obtain j where gb: "give_back ?L ?rest = Some j" and n: "n = j + 10"
    by (auto simp: match_at_def Let_def split: option.splits)
  from give_back_Some [OF gb]
  have j: "1 \<le> j" "j \<le> ?L" "take 5 (drop j ?rest) = ''.jpeg''"
    and longest: "\<forall>i. j < i \<and> i \<le> ?L \<longrightarrow> take 5 (drop i ?rest) \<noteq> ''.jpeg''"
    by simp_all
  from j(3) have "length (take 5 (drop j ?rest)) = 5"
    by simp
  then have le: "j + 10 \<le> length s"
    by simp
  have ref: "is_page_ref (take (j + 10) s)"
    using page j by (simp add: page_ref_parts [OF le])
  have "\<not> is_page_ref (take m s)" if m: "n < m" "m \<le> length s" for m
  proof
    assume r: "is_page_ref (take m s)"
    define i where "i = m - 10"
    from m n have i: "m = i + 10" "j < i"
      by (simp_all add: i_def)
    from r m(2) i(1) have "take 5 (drop i ?rest) = ''.jpeg''" "i \<le> ?L"
      by (simp_all add: page_ref_parts)
    with longest i(2) show False
      by simp
  qed
  with le ref n show ?thesis
    by simp
qed

lemma match_at_None:
  assumes "match_at s = None"
  shows "\<not> is_page_ref (take m s)"
proof
  assume r: "is_page_ref (take m s)"
  let ?rest = "drop 5 s"
  let ?L = "length (takeWhile (\<lambda>c. c \<noteq> CHR '')'') ?rest)"
  define m' where "m' = min m (length s)"
  have same: "take m' s = take m s" and le: "m' \<le> length s"
    by (simp_all add: m'_def min_def)
  from r same have r': "is_page_ref (take m' s)"
    by simp
  from page_ref_length [OF r'] le have "11 \<le> m'"
    by simp
  define i where "i = m' - 10"
  with \<open>11 \<le> m'\<close> have i: "m' = i + 10"
    by simp
  from r' le i have parts: "take 5 s = ''_page''" "1 \<le> i"
    "take 5 (drop i ?rest) = ''.jpeg''" "i \<le> ?L"
    by (simp_all add: page_ref_parts)
  from assms parts(1) have "give_back ?L ?rest = None"
    by (simp add: match_at_def Let_def split: option.splits)
  from give_back_None [OF this parts(2,4)] parts(3) show False
    by simp
qed

lemma match_at_longest:
  assumes "n \<le> length s" and "is_page_ref (take n s)"
    and "\<forall>m. n < m \<and> m \<le> length s \<longrightarrow> \<not> is_page_ref (take m s)"
  shows "match_at s = Some n"
proof (cases "match_at s")
  case None
  from match_at_None [OF this, of n] assms(2) show ?thesis
    by simp
next
  case (Some k)
  from match_at_Some [OF this]
  have k: "k \<le> length s" "is_page_ref (take k s)"
    "\<forall>m. k < m \<and> m \<le> length s \<longrightarrow> \<not> is_page_ref (take m s)"
    by simp_all
  from k(1,2) assms(3) have "\<not> n < k"
    by auto
  moreover from assms(1,2) k(3) have "\<not> k < n"
    by auto
  ultimately show ?thesis
    using Some by simp
qed

lemma substitute_plain_char:
  "CHR ''$'' \<noteq> c \<Longrightarrow> substitute pre m post (c # xs) = c # substitute pre m post xs"
  by (cases xs) auto

lemma substitute_plain_prefix:
  "CHR ''$'' \<notin> set p \<Longrightarrow> substitute pre m post (p @ q) = p @ substitute pre m post q"
  by (induction p) (simp_all add: substitute_plain_char)

lemma substitute_url_pattern:
  assumes "CHR ''$'' \<notin> set key"
  shows "substitute pre m post (url_pattern key) = ''http://localhost:3000/'' @ key @ ''/'' @ m"
proof -
  have "CHR ''$'' \<notin> set (''http://localhost:3000/'' @ key @ ''/'')"
    using assms by simp
  from substitute_plain_prefix [OF this, of pre m post "''$1''"]
  show ?thesis by (simp add: url_pattern_def)
qed

lemma replace_from_seen:
  assumes "CHR ''$'' \<notin> set key"
  shows "replace_from (url_pattern key) seen s = replace_from (url_pattern key) seen' s"
proof (induction "length s" arbitrary: s seen seen' rule: less_induct)
  case less
  show ?case
  proof (cases s)
    case Nil
    then show ?thesis by simp
  next
    case (Cons c cs)
    show ?thesis
    proof (cases "match_at (c # cs)")
      case None
      with Cons less [of cs "seen @ [c]" "seen' @ [c]"] show ?thesis by simp
    next
      case (Some n)
      from match_at_Some [OF Some] have "11 \<le> n"
        using page_ref_length by fastforce
      then have "length (drop n (c # cs)) < length s"
        using Cons by simp
      from less [OF this, of "seen @ take n (c # cs)" "seen' @ take n (c # cs)"] Some Cons
      show ?thesis
        by (simp add: substitute_url_pattern [OF assms])
    qed
  qed
qed

lemma replace_g_Nil: "replace_g pattern [] = []"
  by (simp add: replace_g_def)

lemma replace_g_copy:
  assumes "CHR ''$'' \<notin> set key" and "match_at (c # cs) = None"
  shows "replace_g (url_pattern key) (c # cs) = c # replace_g (url_pattern key) cs"
  using assms(2) replace_from_seen [OF assms(1), of "[c]" cs "[]"]
  by (simp add: replace_g_def)

lemma replace_g_match:
  assumes "CHR ''$'' \<notin> set key" and "match_at s = Some n"
  shows "replace_g (url_pattern key) s =
     ''http://localhost:3000/'' @ key @ ''/'' @ take n s @ replace_g (url_pattern key) (drop n s)"
proof (cases s)
  case Nil
  with assms(2) show ?thesis by (simp add: match_at_def)
next
  case (Cons c cs)
  with assms(2) replace_from_seen [OF assms(1), of "take n s" "drop n s" "[]"]
  show ?thesis
    by (simp add: replace_g_def substitute_url_pattern [OF assms(1)])
qed

lemmas replace_eval = replace_g_def url_pattern_def match_at_def Let_def

lemma no_ref_at_other_char: "c \<noteq> CHR ''_'' \<Longrightarrow> \<not> is_page_ref (take n (c # cs))"
  by (cases n) (auto simp: is_page_ref_def)

section \<open>Evaluation of the examples\<close>

lemmas path_defs = is_pdf_def is_md_def extname_def basename_def last_segment_def ends_with_def
  path_join_def toLowerCase_def toLowerChar_def valid_entry_def

lemmas run_defs = processAllPdfs_def ensure_output_dir_def processPdf_def spawnCommand_def
  settle_def cleanup_def rmdirSync_def folder_exists_def processMarkdownFiles_def readdirSync_def

lemmas demo_defs = demo_behaviour_def demo_world_def stub_def sample_world_def empty_folder_def
  locked_folder_def




lemma demo_a_exists: "folder_exists demo_world (basename ''/in/a.pdf'' ''.pdf'')"
  "folder_exists demo_world (basename ''a.pdf'' ''.pdf'')"
  by (simp_all add: path_defs folder_exists_def demo_defs)

lemma upper_run:
  "processAllPdfs (stub upper_behaviour) ''/in'' ''/out'' upper_world =
     (Summary 1 0 0,
      upper_world\<lparr>tree := [''Report'' \<mapsto> sample_folder ''![alt](_page_3.jpeg)''],
        spawned := [(''marker_single'', [''/in/Report.PDF'', ''--output_dir'', ''/out''])]\<rparr>)"
  by (simp add: path_defs run_defs stub_def upper_behaviour_def upper_world_def sample_world_def Let_def)

lemma upper_run_again:
  "fst (processAllPdfs (stub upper_behaviour) ''/in'' ''/out''
     (snd (processAllPdfs (stub upper_behaviour) ''/in'' ''/out'' upper_world))) = Summary 1 0 0"
  unfolding upper_run
  by (simp add: path_defs run_defs stub_def upper_behaviour_def upper_world_def sample_world_def Let_def)

section \<open>Exit status (C1)\<close>

text \<open>
  C1, as the specification states it, gives status 1 to a missing input
  directory.  The script calls \<^verbatim>\<open>process.exit(1)\<close> only in the argument check;
  \<^verbatim>\<open>processAllPdfs\<close> logs the missing directory and returns, and the process
  ends with status 0.  The example: two arguments, no input directory.
\<close>

theorem exit_status_missing_input_dir_example:
  "fst (main (stub (\<lambda>p. (Exit 0, []))) [''/in'', ''/out''] (sample_world Absent [])) = 0
   \<and> fst (snd (main (stub (\<lambda>p. (Exit 0, []))) [''/in'', ''/out''] (sample_world Absent [])))
       = Some InputDirMissing"
  by (simp add: main_def processAllPdfs_def sample_world_def)

text \<open>
  C1, amended: the process exits with status 1 exactly when fewer than two
  arguments are given, and with status 0 otherwise, however the batch ends and
  whatever the outcomes of the documents are.  A missing input directory
  aborts the run (nothing is created, nothing is launched, the world is left
  as it was) and the status is 0.
\<close>

theorem exit_status:
  "fst (main os args w) = (if length args < 2 then 1 else 0)
   \<and> (2 \<le> length args \<and> input_dir w = Absent
        \<longrightarrow> main os args w = (0, Some InputDirMissing, w))"
  by (simp add: main_def processAllPdfs_def split: prod.splits)

theorem exit_status_witness:
  "fst (main (stub (\<lambda>p. (Exit 1, []))) [''/in'']
          (sample_world (Entries [''a.pdf'']) [])) = 1
   \<and> fst (main (stub (\<lambda>p. (Exit 1, []))) [''/in'', ''/out'']
          (sample_world (Entries [''a.pdf'']) [])) = 0
   \<and> main (stub (\<lambda>p. (Exit 1, []))) [''/in'', ''/out''] (sample_world Absent [])
       = (0, Some InputDirMissing, sample_world Absent [])"
  using exit_status [of "stub (\<lambda>p. (Exit 1, []))" "[''/in'']" "sample_world (Entries [''a.pdf'']) []"]
    exit_status [of "stub (\<lambda>p. (Exit 1, []))" "[''/in'', ''/out'']"
      "sample_world (Entries [''a.pdf'']) []"]
    exit_status [of "stub (\<lambda>p. (Exit 1, []))" "[''/in'', ''/out'']" "sample_world Absent []"]
  by (simp add: sample_world_def)

section \<open>The document key (C2)\<close>

text \<open>
  C2: the batch accepts a file whose extension is \<^verbatim>\<open>.pdf\<close> in any case, and the
  key is to be the file name without its extension.  The key is computed by
  \<^verbatim>\<open>path.basename(pdfFile, '.pdf')\<close>, which removes the lower-case extension
  only: \<^verbatim>\<open>Report.PDF\<close> is accepted, its extension is \<^verbatim>\<open>.PDF\<close>, and its key, in the
  batch and in \<^verbatim>\<open>processPdf\<close>, is the whole name.  With a converter that leaves
  the folder \<^verbatim>\<open>Report\<close>, the run counts the document as succeeded, the Markdown
  file in \<^verbatim>\<open>Report\<close> is not rewritten, and a second run converts the document
  again instead of skipping it.
\<close>

theorem document_key_keeps_upper_case_extension:
  "is_pdf ''Report.PDF''
   \<and> extname ''Report.PDF'' = ''.PDF''
   \<and> basename ''Report.PDF'' ''.pdf'' = ''Report.PDF''
   \<and> basename (path_join ''/in'' ''Report.PDF'') ''.pdf'' = ''Report.PDF''
   \<and> basename ''Report.PDF'' ''.pdf'' @ extname ''Report.PDF'' \<noteq> ''Report.PDF''
   \<and> fst (processAllPdfs (stub upper_behaviour) ''/in'' ''/out'' upper_world) = Summary 1 0 0
   \<and> tree (snd (processAllPdfs (stub upper_behaviour) ''/in'' ''/out'' upper_world)) ''Report''
       = Some (sample_folder ''![alt](_page_3.jpeg)'')
   \<and> fst (processAllPdfs (stub upper_behaviour) ''/in'' ''/out''
          (snd (processAllPdfs (stub upper_behaviour) ''/in'' ''/out'' upper_world)))
       = Summary 1 0 0"
proof -
  have "is_pdf ''Report.PDF''
   \<and> extname ''Report.PDF'' = ''.PDF''
   \<and> basename ''Report.PDF'' ''.pdf'' = ''Report.PDF''
   \<and> basename (path_join ''/in'' ''Report.PDF'') ''.pdf'' = ''Report.PDF''
   \<and> basename ''Report.PDF'' ''.pdf'' @ extname ''Report.PDF'' \<noteq> ''Report.PDF''"
    by (simp add: path_defs)
  moreover have "tree (snd (processAllPdfs (stub upper_behaviour) ''/in'' ''/out'' upper_world))
      ''Report'' = Some (sample_folder ''![alt](_page_3.jpeg)'')"
    unfolding upper_run by simp
  ultimately show ?thesis
    using upper_run upper_run_again by simp
qed

section \<open>The rewriter (C3)\<close>

text \<open>
  C3, as the specification states it, has every substring that begins with
  \<^verbatim>\<open>_page\<close> and ends with \<^verbatim>\<open>.jpeg\<close> replaced by the URL of the document key.  The
  expression asks for at least one character between the two, so \<^verbatim>\<open>_page.jpeg\<close>
  stays as it is; it is greedy up to the next closing parenthesis, so two
  references with no parenthesis between them are one match and get one URL;
  and the key is part of a replacement pattern, so the key \<^verbatim>\<open>a$$b\<close> is written
  as \<^verbatim>\<open>a$b\<close>.
\<close>

theorem rewrite_claim_examples:
  "replace_g (url_pattern ''report'') ''![a](_page.jpeg)'' = ''![a](_page.jpeg)''
   \<and> replace_g (url_pattern ''report'') ''<img src=_page_1.jpeg> <img src=_page_2.jpeg>''
       = ''<img src=http://localhost:3000/report/_page_1.jpeg> <img src=_page_2.jpeg>''
   \<and> replace_g (url_pattern ''a$$b'') ''![alt](_page_3.jpeg)''
       = ''![alt](http://localhost:3000/a$b/_page_3.jpeg)''"
  by (simp add: replace_eval)

text \<open>
  C3, amended: for a document key without a dollar sign, the rewriter scans
  the text from the left.  Where a page reference starts (\<^verbatim>\<open>_page\<close>, one or more
  characters other than a closing parenthesis, \<^verbatim>\<open>.jpeg\<close>), it writes
  \<^verbatim>\<open>http://localhost:3000/\<close>, the key, a slash and the longest page reference
  that starts there, and goes on after that reference; every other character
  is copied.  A file that can be read and written gets this text as its new
  content.  So \<^verbatim>\<open>![alt](_page_3.jpeg)\<close> with the key \<^verbatim>\<open>report\<close> becomes
  \<^verbatim>\<open>![alt](http://localhost:3000/report/_page_3.jpeg)\<close>, and a reference to
  \<^verbatim>\<open>cover.png\<close> stays as it is.
\<close>

theorem rewrite_page_references:
  assumes "CHR ''$'' \<notin> set key"
  shows "replace_g (url_pattern key) [] = []
    \<and> ((\<forall>n. \<not> is_page_ref (take n (c # cs)))
        \<longrightarrow> replace_g (url_pattern key) (c # cs) = c # replace_g (url_pattern key) cs)
    \<and> (n \<le> length s \<and> is_page_ref (take n s)
          \<and> (\<forall>m. n < m \<and> m \<le> length s \<longrightarrow> \<not> is_page_ref (take m s))
        \<longrightarrow> replace_g (url_pattern key) s =
            ''http://localhost:3000/'' @ key @ ''/'' @ take n s
              @ replace_g (url_pattern key) (drop n s))
    \<and> (readable f \<and> writable f
        \<longrightarrow> replaceImagePaths key f =
            (True, f\<lparr>content := replace_g (url_pattern key) (content f)\<rparr>))
    \<and> replace_g (url_pattern ''report'') ''![alt](_page_3.jpeg)''
        = ''![alt](http://localhost:3000/report/_page_3.jpeg)''
    \<and> replace_g (url_pattern ''report'') ''![cover](cover.png)'' = ''![cover](cover.png)''"
proof -
  have copy: "(\<forall>n. \<not> is_page_ref (take n (c # cs)))
      \<longrightarrow> replace_g (url_pattern key) (c # cs) = c # replace_g (url_pattern key) cs"
  proof
    assume none: "\<forall>n. \<not> is_page_ref (take n (c # cs))"
    have "match_at (c # cs) = None"
    proof (cases "match_at (c # cs)")
      case (Some k)
      from match_at_Some [OF this] none show ?thesis by blast
    qed simp
    then show "replace_g (url_pattern key) (c # cs) = c # replace_g (url_pattern key) cs"
      by (rule replace_g_copy [OF assms])
  qed
  have match: "n \<le> length s \<and> is_page_ref (take n s)
          \<and> (\<forall>m. n < m \<and> m \<le> length s \<longrightarrow> \<not> is_page_ref (take m s))
        \<longrightarrow> replace_g (url_pattern key) s =
            ''http://localhost:3000/'' @ key @ ''/'' @ take n s
              @ replace_g (url_pattern key) (drop n s)"
  proof
    assume "n \<le> length s \<and> is_page_ref (take n s)
          \<and> (\<forall>m. n < m \<and> m \<le> length s \<longrightarrow> \<not> is_page_ref (take m s))"
    then have "match_at s = Some n"
      by (simp add: match_at_longest)
    then show "replace_g (url_pattern key) s =
            ''http://localhost:3000/'' @ key @ ''/'' @ take n s
              @ replace_g (url_pattern key) (drop n s)"
      by (rule replace_g_match [OF assms])
  qed
  have written: "readable f \<and> writable f
        \<longrightarrow> replaceImagePaths key f =
            (True, f\<lparr>content := replace_g (url_pattern key) (content f)\<rparr>)"
    by (simp add: replaceImagePaths_def readFileSync_def writeFileSync_def)
  have ex1: "replace_g (url_pattern ''report'') ''![alt](_page_3.jpeg)''
        = ''![alt](http://localhost:3000/report/_page_3.jpeg)''"
    by (simp add: replace_eval)
  have ex2: "replace_g (url_pattern ''report'') ''![cover](cover.png)'' = ''![cover](cover.png)''"
    by (simp add: replace_eval)
  from copy match written ex1 ex2 show ?thesis
    by (simp only: replace_g_Nil simp_thms)
qed

theorem rewrite_page_references_witness:
  "replace_g (url_pattern ''report'') ''(_page_3.jpeg)''
     = CHR ''('' # replace_g (url_pattern ''report'') ''_page_3.jpeg)''
   \<and> replace_g (url_pattern ''report'') ''_page_3.jpeg)''
     = ''http://localhost:3000/report/_page_3.jpeg'' @ replace_g (url_pattern ''report'') '')''
   \<and> replaceImagePaths ''report''
        \<lparr>content = ''![alt](_page_3.jpeg)'', readable = True, writable = True\<rparr>
     = (True, \<lparr>content = ''![alt](http://localhost:3000/report/_page_3.jpeg)'',
               readable = True, writable = True\<rparr>)"
proof -
  have key: "CHR ''$'' \<notin> set ''report''"
    by simp
  have none: "\<forall>n. \<not> is_page_ref (take n (CHR ''('' # ''_page_3.jpeg)''))"
    by (simp add: no_ref_at_other_char)
  have ref: "12 \<le> length ''_page_3.jpeg)''" "is_page_ref (take 12 ''_page_3.jpeg)'')"
    by (simp_all add: is_page_ref_def)
  have longest: "\<forall>m. 12 < m \<and> m \<le> length ''_page_3.jpeg)''
      \<longrightarrow> \<not> is_page_ref (take m ''_page_3.jpeg)'')"
  proof (intro allI impI)
    fix m :: nat
    assume "12 < m \<and> m \<le> length ''_page_3.jpeg)''"
    then have "m = 13" by simp
    then show "\<not> is_page_ref (take m ''_page_3.jpeg)'')"
      by (simp add: is_page_ref_def)
  qed
  from rewrite_page_references [OF key, where c = "CHR ''(''" and cs = "''_page_3.jpeg)''"
      and n = 12 and s = "''_page_3.jpeg)''"
      and f = "\<lparr>content = ''![alt](_page_3.jpeg)'', readable = True, writable = True\<rparr>"]
    none ref longest
  show ?thesis
    by simp
qed

section \<open>The summary (C4)\<close>



section \<open>A second run (C5)\<close>




section \<open>Cleanup after a failure (C6)\<close>



section \<open>No process for a document whose folder exists (C7)\<close>



section \<open>The process executor (C8)\<close>

text \<open>
  C8: \<^verbatim>\<open>spawnCommand\<close> resolves true exactly when the child exits with code 0; an
  exit code other than 0 resolves false; a launch failure rejects, which is
  neither.  A launch failure is fatal for its document only: \<^verbatim>\<open>processPdf\<close>
  resolves false, and the loop counts the document as failed and goes on with
  the next candidate.
\<close>

theorem executor_resolution:
  "(settle ev = Inr True \<longleftrightarrow> ev = Exit 0)
   \<and> (code \<noteq> 0 \<longrightarrow> settle (Exit code) = Inr False)
   \<and> settle (LaunchError e) = Inl e
   \<and> fst (spawnCommand os command args w) = settle (fst (os command args (outside w, tree w)))
   \<and> (\<not> folder_exists w (basename pdfPath ''.pdf'')
        \<and> fst (os ''marker_single'' [pdfPath, ''--output_dir'', outputDir] (outside w, tree w))
            = LaunchError e
      \<longrightarrow> fst (processPdf os pdfPath outputDir w) = Inr False)
   \<and> (valid_entry pdfFile \<and> is_pdf pdfFile \<and> \<not> folder_exists w (basename pdfFile ''.pdf'')
        \<and> fst (os ''marker_single'' [path_join inputDir pdfFile, ''--output_dir'', outputDir]
                 (outside w, tree w)) = LaunchError e
      \<longrightarrow> batch_loop os inputDir outputDir (pdfFile # pdfFiles) c w =
          batch_loop os inputDir outputDir pdfFiles (c\<lparr>failCount := failCount c + 1\<rparr>)
            (snd (processPdf os (path_join inputDir pdfFile) outputDir w)))"
proof -
  have a: "settle ev = Inr True \<longleftrightarrow> ev = Exit 0" by (rule settle_true)
  have b: "code \<noteq> 0 \<longrightarrow> settle (Exit code) = Inr False" by (simp add: settle_def)
  have c: "settle (LaunchError e) = Inl e" by (simp add: settle_def)
  have d: "fst (spawnCommand os command args w) = settle (fst (os command args (outside w, tree w)))"
    by (rule spawnCommand_result)
  have e: "\<not> folder_exists w (basename pdfPath ''.pdf'')
        \<and> fst (os ''marker_single'' [pdfPath, ''--output_dir'', outputDir] (outside w, tree w))
            = LaunchError e
      \<longrightarrow> fst (processPdf os pdfPath outputDir w) = Inr False"
    by (simp add: processPdf_result)
  have f: "valid_entry pdfFile \<and> is_pdf pdfFile \<and> \<not> folder_exists w (basename pdfFile ''.pdf'')
        \<and> fst (os ''marker_single'' [path_join inputDir pdfFile, ''--output_dir'', outputDir]
                 (outside w, tree w)) = LaunchError e
      \<longrightarrow> batch_loop os inputDir outputDir (pdfFile # pdfFiles) c w =
          batch_loop os inputDir outputDir pdfFiles (c\<lparr>failCount := failCount c + 1\<rparr>)
            (snd (processPdf os (path_join inputDir pdfFile) outputDir w))"
  proof (intro impI, elim conjE)
    assume h: "valid_entry pdfFile" "is_pdf pdfFile"
      "\<not> folder_exists w (basename pdfFile ''.pdf'')"
      "fst (os ''marker_single'' [path_join inputDir pdfFile, ''--output_dir'', outputDir]
                 (outside w, tree w)) = LaunchError e"
    then have "fst (processPdf os (path_join inputDir pdfFile) outputDir w) = Inr False"
      by (simp add: processPdf_result basename_path_join)
    with h(3) show "batch_loop os inputDir outputDir (pdfFile # pdfFiles) c w =
          batch_loop os inputDir outputDir pdfFiles (c\<lparr>failCount := failCount c + 1\<rparr>)
            (snd (processPdf os (path_join inputDir pdfFile) outputDir w))"
      by (cases "processPdf os (path_join inputDir pdfFile) outputDir w") simp
  qed
  from a b c d e f show ?thesis by blast
qed

theorem executor_resolution_witness:
  "settle (Exit 0) = Inr True \<and> settle (Exit 2) = Inr False
   \<and> settle (LaunchError (Exn ''ENOENT'')) = Inl (Exn ''ENOENT'')
   \<and> fst (processPdf (stub demo_behaviour) ''/in/e.pdf'' ''/out'' demo_world) = Inr False
   \<and> batch_loop (stub demo_behaviour) ''/in'' ''/out'' [''e.pdf'', ''c.pdf'']
        \<lparr>successCount = 0, skipCount = 0, failCount = 0\<rparr> demo_world
      = batch_loop (stub demo_behaviour) ''/in'' ''/out'' [''c.pdf'']
          \<lparr>successCount = 0, skipCount = 0, failCount = 1\<rparr>
          (snd (processPdf (stub demo_behaviour) ''/in/e.pdf'' ''/out'' demo_world))"
proof -
  have e1: "\<not> folder_exists demo_world (basename ''/in/e.pdf'' ''.pdf'')"
    "\<not> folder_exists demo_world (basename ''e.pdf'' ''.pdf'')"
    by (simp_all add: path_defs folder_exists_def demo_defs)
  have e2: "fst (stub demo_behaviour ''marker_single'' [''/in/e.pdf'', ''--output_dir'', ''/out'']
      (outside demo_world, tree demo_world)) = LaunchError (Exn ''ENOENT'')"
    by (simp add: stub_def demo_behaviour_def)
  have e3: "valid_entry ''e.pdf''" "is_pdf ''e.pdf''" "path_join ''/in'' ''e.pdf'' = ''/in/e.pdf''"
    by (simp_all add: path_defs)
  from executor_resolution [where ev = "Exit 0" and code = 2 and e = "Exn ''ENOENT''"
      and os = "stub demo_behaviour" and w = demo_world and pdfPath = "''/in/e.pdf''"
      and outputDir = "''/out''" and inputDir = "''/in''" and pdfFile = "''e.pdf''"
      and pdfFiles = "[''c.pdf'']" and c = "\<lparr>successCount = 0, skipCount = 0, failCount = 0\<rparr>"]
    e1 e2 e3
  show ?thesis
    by simp
qed

section \<open>No exception leaves a document (C9)\<close>

text \<open>
  C9: \<^verbatim>\<open>processPdf\<close> always resolves with a boolean and never rejects; the loop
  of the batch therefore never leaves early: it ends with counters that have
  grown by the number of candidates, and after a failed document it goes on
  with the next candidate.  When the input directory can be listed and the
  output directory exists or can be created, the handler of \<^verbatim>\<open>processAllPdfs\<close>
  is never reached.
\<close>

theorem failures_stay_inside_document:
  "(\<exists>b. fst (processPdf os pdfPath outputDir w) = Inr b)
   \<and> (\<exists>c'. fst (batch_loop os inputDir outputDir pdfFiles c w) = Inr c'
         \<and> successCount c' + skipCount c' + failCount c'
             = successCount c + skipCount c + failCount c + length pdfFiles)
   \<and> (\<not> folder_exists w (basename pdfFile ''.pdf'')
        \<and> fst (processPdf os (path_join inputDir pdfFile) outputDir w) = Inr False
      \<longrightarrow> batch_loop os inputDir outputDir (pdfFile # pdfFiles) c w =
          batch_loop os inputDir outputDir pdfFiles (c\<lparr>failCount := failCount c + 1\<rparr>)
            (snd (processPdf os (path_join inputDir pdfFile) outputDir w)))
   \<and> (input_dir w = Entries files \<and> (root_exists w \<or> mkdir_ok w)
      \<longrightarrow> (\<forall>e. fst (processAllPdfs os inputDir outputDir w) \<noteq> Caught e))"
proof -
  have "\<not> folder_exists w (basename pdfFile ''.pdf'')
        \<and> fst (processPdf os (path_join inputDir pdfFile) outputDir w) = Inr False
      \<longrightarrow> batch_loop os inputDir outputDir (pdfFile # pdfFiles) c w =
          batch_loop os inputDir outputDir pdfFiles (c\<lparr>failCount := failCount c + 1\<rparr>)
            (snd (processPdf os (path_join inputDir pdfFile) outputDir w))"
    by (cases "processPdf os (path_join inputDir pdfFile) outputDir w") simp
  with processPdf_resolves [of os pdfPath outputDir w]
    batch_loop_total [of os inputDir outputDir pdfFiles c w]
    processAllPdfs_not_caught [of w files os inputDir outputDir]
  show ?thesis by blast
qed

theorem failures_stay_inside_document_witness:
  "fst (processPdf (stub demo_behaviour) ''/in/b.pdf'' ''/out'' demo_world) = Inr False
   \<and> fst (batch_loop (stub demo_behaviour) ''/in'' ''/out'' [''b.pdf'', ''c.pdf'']
        \<lparr>successCount = 0, skipCount = 0, failCount = 0\<rparr> demo_world)
      = Inr \<lparr>successCount = 1, skipCount = 0, failCount = 1\<rparr>"
proof -
  have b1: "\<not> folder_exists demo_world (basename ''b.pdf'' ''.pdf'')"
    by (simp add: path_defs folder_exists_def demo_defs)
  have b2: "fst (processPdf (stub demo_behaviour) ''/in/b.pdf'' ''/out'' demo_world) = Inr False"
    by (simp add: path_defs run_defs demo_defs)
  have b3: "path_join ''/in'' ''b.pdf'' = ''/in/b.pdf''"
    by (simp add: path_defs)
  have c1: "fst (batch_loop (stub demo_behaviour) ''/in'' ''/out'' [''c.pdf'']
        \<lparr>successCount = 0, skipCount = 0, failCount = 1\<rparr>
        (snd (processPdf (stub demo_behaviour) ''/in/b.pdf'' ''/out'' demo_world)))
      = Inr \<lparr>successCount = 1, skipCount = 0, failCount = 1\<rparr>"
    by (simp add: path_defs run_defs demo_defs Let_def)
  from failures_stay_inside_document [where os = "stub demo_behaviour" and w = demo_world
      and pdfPath = "''/in/b.pdf''" and outputDir = "''/out''" and inputDir = "''/in''"
      and pdfFile = "''b.pdf''" and pdfFiles = "[''c.pdf'']"
      and c = "\<lparr>successCount = 0, skipCount = 0, failCount = 0\<rparr>"]
    b1 b2 b3 c1
  show ?thesis
    by simp
qed

section \<open>Skipped and succeeded at the interface of \<^verbatim>\<open>processPdf\<close> (C10)\<close>

text \<open>
  C10: called on a document whose output folder exists, \<^verbatim>\<open>processPdf\<close> resolves
  true, as it does after a successful conversion.  The loop of the batch
  counts a document as skipped exactly when its own check finds the folder;
  when its check does not, the result of \<^verbatim>\<open>processPdf\<close> is counted as success
  or failure, never as skipped.
\<close>

theorem skip_indistinguishable_from_success:
  "(folder_exists w (basename pdfPath ''.pdf'')
      \<longrightarrow> processPdf os pdfPath outputDir w = (Inr True, w))
   \<and> (\<not> folder_exists w (basename pdfPath ''.pdf'')
        \<and> fst (os ''marker_single'' [pdfPath, ''--output_dir'', outputDir] (outside w, tree w))
            = Exit 0
      \<longrightarrow> fst (processPdf os pdfPath outputDir w) = Inr True)
   \<and> (folder_exists w (basename pdfFile ''.pdf'')
      \<longrightarrow> batch_loop os inputDir outputDir (pdfFile # pdfFiles) c w =
          batch_loop os inputDir outputDir pdfFiles (c\<lparr>skipCount := skipCount c + 1\<rparr>) w)
   \<and> (\<not> folder_exists w (basename pdfFile ''.pdf'')
      \<longrightarrow> batch_loop os inputDir outputDir (pdfFile # pdfFiles) c w =
          batch_loop os inputDir outputDir pdfFiles
            (if fst (processPdf os (path_join inputDir pdfFile) outputDir w) = Inr True
             then c\<lparr>successCount := successCount c + 1\<rparr>
             else c\<lparr>failCount := failCount c + 1\<rparr>)
            (snd (processPdf os (path_join inputDir pdfFile) outputDir w)))"
proof -
  obtain b where "fst (processPdf os (path_join inputDir pdfFile) outputDir w) = Inr b"
    using processPdf_resolves by blast
  then have "\<not> folder_exists w (basename pdfFile ''.pdf'')
      \<longrightarrow> batch_loop os inputDir outputDir (pdfFile # pdfFiles) c w =
          batch_loop os inputDir outputDir pdfFiles
            (if fst (processPdf os (path_join inputDir pdfFile) outputDir w) = Inr True
             then c\<lparr>successCount := successCount c + 1\<rparr>
             else c\<lparr>failCount := failCount c + 1\<rparr>)
            (snd (processPdf os (path_join inputDir pdfFile) outputDir w))"
    by (cases "processPdf os (path_join inputDir pdfFile) outputDir w") auto
  then show ?thesis
    by (simp add: processPdf_skip processPdf_result)
qed

theorem skip_indistinguishable_from_success_witness:
  "fst (processPdf (stub demo_behaviour) ''/in/a.pdf'' ''/out'' demo_world) = Inr True
   \<and> fst (processPdf (stub demo_behaviour) ''/in/c.pdf'' ''/out'' demo_world) = Inr True
   \<and> batch_loop (stub demo_behaviour) ''/in'' ''/out'' [''a.pdf'']
        \<lparr>successCount = 0, skipCount = 0, failCount = 0\<rparr> demo_world
      = (Inr \<lparr>successCount = 0, skipCount = 1, failCount = 0\<rparr>, demo_world)
   \<and> fst (batch_loop (stub demo_behaviour) ''/in'' ''/out'' [''c.pdf'']
        \<lparr>successCount = 0, skipCount = 0, failCount = 0\<rparr> demo_world)
      = Inr \<lparr>successCount = 1, skipCount = 0, failCount = 0\<rparr>"
proof -
  have c1: "\<not> folder_exists demo_world (basename ''/in/c.pdf'' ''.pdf'')"
    "\<not> folder_exists demo_world (basename ''c.pdf'' ''.pdf'')"
    by (simp_all add: path_defs folder_exists_def demo_defs)
  have c2: "fst (stub demo_behaviour ''marker_single'' [''/in/c.pdf'', ''--output_dir'', ''/out'']
      (outside demo_world, tree demo_world)) = Exit 0"
    by (simp add: stub_def demo_behaviour_def)
  have c3: "path_join ''/in'' ''c.pdf'' = ''/in/c.pdf''"
    by (simp add: path_defs)
  note a = skip_indistinguishable_from_success [where os = "stub demo_behaviour"
      and w = demo_world and pdfPath = "''/in/a.pdf''" and outputDir = "''/out''"
      and inputDir = "''/in''" and pdfFile = "''a.pdf''" and pdfFiles = "[]"
      and c = "\<lparr>successCount = 0, skipCount = 0, failCount = 0\<rparr>"]
  note c = skip_indistinguishable_from_success [where os = "stub demo_behaviour"
      and w = demo_world and pdfPath = "''/in/c.pdf''" and outputDir = "''/out''"
      and inputDir = "''/in''" and pdfFile = "''c.pdf''" and pdfFiles = "[]"
      and c = "\<lparr>successCount = 0, skipCount = 0, failCount = 0\<rparr>"]
  from a c demo_a_exists c1 c2 c3 show ?thesis
    by simp
qed

end
